theory Spec2Isabelle
  imports Main "HOL-Library.Multiset"
begin

section \<open>Data model\<close>

text \<open>
  The digest pipeline of \<^verbatim>\<open>daily_digest.py\<close>. A paper is the dictionary built by
  \<^verbatim>\<open>ArxivFetcher.fetch_papers\<close>; its four keys are always present. Strings are byte
  strings, the UTF-8 encodings of the program's strings, so the emoji of the templates
  are written as their bytes.
\<close>

record paper =
  title :: string
  abstract :: string
  url :: string
  published :: string

text \<open>
  The exceptions of the code paths modelled here. \<open>ServiceError\<close> stands for whatever
  a request to the generation service raises, the \<^verbatim>\<open>AttributeError\<close> of a response
  without text included.
\<close>

datatype error = ServiceError | ValueError | IndexError

text \<open>
  The generation service: the outcome of the \<open>n\<close>-th request of a run, given its prompt.
  \<open>None\<close> is a request that raises before \<^verbatim>\<open>response.text\<close> is a string. Replies are
  indexed by the request number because the service is not a function of the prompt:
  the same prompt may succeed once and fail the next time.
\<close>

type_synonym service = "nat \<Rightarrow> string \<Rightarrow> string option"

section \<open>Strings\<close>

definition dq :: string where
  "dq = [CHR 0x22]"

definition sq :: string where
  "sq = [CHR 0x27]"

definition bq :: string where
  "bq = [CHR 0x60]"

definition rocket :: string where
  "rocket = [CHR 0xF0, CHR 0x9F, CHR 0x9A, CHR 0x80]"

definition gear :: string where
  "gear = [CHR 0xE2, CHR 0x9A, CHR 0x99, CHR 0xEF, CHR 0xB8, CHR 0x8F]"

definition bulb :: string where
  "bulb = [CHR 0xF0, CHR 0x9F, CHR 0x92, CHR 0xA1]"

definition books :: string where
  "books = [CHR 0xF0, CHR 0x9F, CHR 0x93, CHR 0x9A]"

text \<open>\<^verbatim>\<open>str(n)\<close> of a natural number, as an f-string formats it.\<close>

fun str_nat :: "nat \<Rightarrow> string" where
  "str_nat n =
     (if n < 10 then [''0123456789'' ! n]
      else str_nat (n div 10) @ [''0123456789'' ! (n mod 10)])"

text \<open>\<^verbatim>\<open>sep.join(xs)\<close>.\<close>

fun join :: "string \<Rightarrow> string list \<Rightarrow> string" where
  "join sep [] = []"
| "join sep [x] = x"
| "join sep (x # y # ys) = x @ sep @ join sep (y # ys)"

text \<open>
  A Python string is a sequence of code points; a byte string stands for its UTF-8
  encoding. \<open>utf8_chars\<close> splits a byte string into the encodings of its characters, each
  as long as its lead byte announces, and \<open>codepoint\<close> decodes one character. A byte
  string that is not well-formed UTF-8 is the encoding of no string of the program.
\<close>

definition utf8_len :: "char \<Rightarrow> nat" where
  "utf8_len b =
     (if (of_char b :: int) < 0xC0 then 1
      else if (of_char b :: int) < 0xE0 then 2
      else if (of_char b :: int) < 0xF0 then 3
      else 4)"

function utf8_chars :: "string \<Rightarrow> string list" where
  "utf8_chars [] = []"
| "utf8_chars (b # bs) =
     (b # take (utf8_len b - 1) bs) # utf8_chars (drop (utf8_len b - 1) bs)"
  by pat_completeness auto
termination
  by (relation "measure length") auto

definition codepoint :: "string \<Rightarrow> int" where
  "codepoint c =
     (case map of_char c of
        [b0] \<Rightarrow> b0
      | [b0, b1] \<Rightarrow> (b0 - 0xC0) * 0x40 + (b1 - 0x80)
      | [b0, b1, b2] \<Rightarrow> ((b0 - 0xE0) * 0x40 + (b1 - 0x80)) * 0x40 + (b2 - 0x80)
      | [b0, b1, b2, b3] \<Rightarrow>
          (((b0 - 0xF0) * 0x40 + (b1 - 0x80)) * 0x40 + (b2 - 0x80)) * 0x40 + (b3 - 0x80)
      | _ \<Rightarrow> 0)"

text \<open>
  \<^verbatim>\<open>s.strip()\<close>: the characters of \<^verbatim>\<open>str.isspace\<close> are removed at both ends.
\<close>

definition is_space :: "string \<Rightarrow> bool" where
  "is_space c =
     (codepoint c \<in> set [0x9, 0xA, 0xB, 0xC, 0xD, 0x1C, 0x1D, 0x1E, 0x1F, 0x20, 0x85, 0xA0,
        0x1680, 0x2000, 0x2001, 0x2002, 0x2003, 0x2004, 0x2005, 0x2006, 0x2007, 0x2008,
        0x2009, 0x200A, 0x2028, 0x2029, 0x202F, 0x205F, 0x3000])"

definition strip :: "string \<Rightarrow> string" where
  "strip s = concat (rev (dropWhile is_space (rev (dropWhile is_space (utf8_chars s)))))"

text \<open>
  The decimal digits. \<^verbatim>\<open>\d\<close> in a pattern on strings matches the characters of the
  Unicode category Nd, in every script, and \<^verbatim>\<open>int\<close> converts all of them. Which
  characters these are is a table of the interpreter, not of this program, and it grows
  with the version of Unicode: the tokenizer takes it as the parameter \<open>nd\<close>, which gives
  the decimal value of a character that is a digit and \<open>None\<close> for any other.
  \<open>unicode_nd\<close> is the table of Unicode 14.0, the one of Python 3.11: the digits of a
  script are ten consecutive code points, listed here by their zero.
\<close>

type_synonym digit_table = "string \<Rightarrow> int option"

definition nd_zeros :: "int list" where
  "nd_zeros =
     [0x30, 0x660, 0x6F0, 0x7C0, 0x966, 0x9E6, 0xA66, 0xAE6, 0xB66, 0xBE6, 0xC66, 0xCE6,
      0xD66, 0xDE6, 0xE50, 0xED0, 0xF20, 0x1040, 0x1090, 0x17E0, 0x1810, 0x1946, 0x19D0,
      0x1A80, 0x1A90, 0x1B50, 0x1BB0, 0x1C40, 0x1C50, 0xA620, 0xA8D0, 0xA900, 0xA9D0,
      0xA9F0, 0xAA50, 0xABF0, 0xFF10, 0x104A0, 0x10D30, 0x11066, 0x110F0, 0x11136,
      0x111D0, 0x112F0, 0x11450, 0x114D0, 0x11650, 0x116C0, 0x11730, 0x118E0, 0x11950,
      0x11C50, 0x11D50, 0x11DA0, 0x16A60, 0x16AC0, 0x16B50, 0x1D7CE, 0x1D7D8, 0x1D7E2,
      0x1D7EC, 0x1D7F6, 0x1E140, 0x1E2F0, 0x1E950, 0x1FBF0]"

definition unicode_nd :: digit_table where
  "unicode_nd c =
     map_option (\<lambda>z. codepoint c - z)
       (find (\<lambda>z. z \<le> codepoint c \<and> codepoint c < z + 10) nd_zeros)"

text \<open>
  \<^verbatim>\<open>re.findall(r'\d+', text)\<close>: the maximal runs of digits, from left to right, each run a
  list of characters. \<open>scan_digits nd cur cs\<close> reads the characters \<open>cs\<close> with the run
  \<open>cur\<close> open.
\<close>

fun scan_digits :: "digit_table \<Rightarrow> string list \<Rightarrow> string list \<Rightarrow> string list list" where
  "scan_digits nd cur [] = (if cur = [] then [] else [cur])"
| "scan_digits nd cur (c # cs) =
     (if nd c \<noteq> None then scan_digits nd (cur @ [c]) cs
      else if cur = [] then scan_digits nd [] cs
      else cur # scan_digits nd [] cs)"

definition findall_digits :: "digit_table \<Rightarrow> string \<Rightarrow> string list list" where
  "findall_digits nd s = scan_digits nd [] (utf8_chars s)"

definition int_of_digits :: "digit_table \<Rightarrow> string list \<Rightarrow> int" where
  "int_of_digits nd tok =
     foldl (\<lambda>a c. 10 * a + (case nd c of None \<Rightarrow> 0 | Some v \<Rightarrow> v)) 0 tok"

text \<open>
  \<^verbatim>\<open>int(tok)\<close> on a run of digits. Python's integers are unbounded; the conversion
  raises \<^verbatim>\<open>ValueError\<close> for a token of more digits than the interpreter's limit on
  integer strings (\<^verbatim>\<open>sys.get_int_max_str_digits()\<close>, 4300 by default since Python 3.11).
  \<open>lim = None\<close> is an interpreter without the limit.
\<close>

definition exceeds_limit :: "nat option \<Rightarrow> string list \<Rightarrow> bool" where
  "exceeds_limit lim tok = (case lim of None \<Rightarrow> False | Some m \<Rightarrow> m < length tok)"

definition py_int :: "digit_table \<Rightarrow> nat option \<Rightarrow> string list \<Rightarrow> error + int" where
  "py_int nd lim tok =
     (if exceeds_limit lim tok then Inl ValueError else Inr (int_of_digits nd tok))"

text \<open>A list comprehension whose element expression may raise: the first error wins.\<close>

fun collect :: "('a \<Rightarrow> error + 'b) \<Rightarrow> 'a list \<Rightarrow> error + 'b list" where
  "collect f [] = Inr []"
| "collect f (x # xs) =
     (case f x of
        Inl e \<Rightarrow> Inl e
      | Inr y \<Rightarrow> (case collect f xs of Inl e \<Rightarrow> Inl e | Inr ys \<Rightarrow> Inr (y # ys)))"

text \<open>\<^verbatim>\<open>xs[i]\<close>: a negative index counts from the end, any other miss raises.\<close>

definition getitem :: "'a list \<Rightarrow> int \<Rightarrow> error + 'a" where
  "getitem xs i =
     (let n = int (length xs); j = (if i < 0 then i + n else i)
      in if 0 \<le> j \<and> j < n then Inr (xs ! nat j) else Inl IndexError)"

section \<open>Selection: \<^verbatim>\<open>GeminiSummarizer.generate_digest\<close>\<close>

definition paper_text :: "paper list \<Rightarrow> string" where
  "paper_text papers =
     join ''\<newline>\<newline>''
       (map (\<lambda>(i, p). ''ID: '' @ str_nat i @ ''\<newline>Title: '' @ title p
                          @ ''\<newline>Abstract: '' @ abstract p)
          (enumerate 0 papers))"

definition selection_prompt :: "paper list \<Rightarrow> string" where
  "selection_prompt papers = concat [
     ''\<newline>'',
     ''        Role: You are a Distinguished AI Research Scientist and Senior Editor for a top-tier AI journal.\<newline>'',
     ''        Task: Review the following '' @ str_nat (length papers) @ '' AI paper abstracts and identify the top 3 most ground-breaking, novel, or impactful papers.\<newline>'',
     ''        \<newline>'',
     ''        Selection Criteria:\<newline>'',
     ''        1. **Novelty**: Does this propose a new architecture, paradigm, or solve a long-standing problem?\<newline>'',
     ''        2. **Impact**: potential to change the field or wide applicability.\<newline>'',
     ''        3. **Rigor**: (Inferred from abstract) Methodology looks sound.\<newline>'',
     ''        \<newline>'',
     ''        Avoid: Incremental improvements (e.g., '' @ dq @ ''X% better on Y dataset'' @ dq @ '') unless the method is radically new.\<newline>'',
     ''        \<newline>'',
     ''        Output:\<newline>'',
     ''        Return ONLY a comma-separated list of the 3 IDs corresponding to your choices. Example: 0, 15, 42\<newline>'',
     ''        \<newline>'',
     ''        Papers:\<newline>'',
     ''        '' @ paper_text papers @ ''\<newline>'',
     ''        '']"

text \<open>
  The guard of the comprehension that builds \<^verbatim>\<open>selected_papers\<close>: the indices whose
  papers are selected.
\<close>

definition in_range :: "'a list \<Rightarrow> int \<Rightarrow> bool" where
  "in_range papers i = (0 \<le> i \<and> i < int (length papers))"

definition selected_positions :: "'a list \<Rightarrow> int list \<Rightarrow> int list" where
  "selected_positions papers selected_indices = filter (in_range papers) selected_indices"

text \<open>
  The body of the \<^verbatim>\<open>try\<close> after the request: the response text is stripped, its digit
  runs are found, the first three are converted, and the papers at those of them that
  pass the range guard are looked up. The result is the pair
  \<open>(selected_papers, selected_indices)\<close>.
\<close>

definition parse_response ::
    "digit_table \<Rightarrow> nat option \<Rightarrow> paper list \<Rightarrow> string \<Rightarrow> error + (paper list \<times> int list)"
  where
  "parse_response nd lim papers raw =
     (let text = strip raw;
          ids = findall_digits nd text
      in case collect (py_int nd lim) (take 3 ids) of
           Inl e \<Rightarrow> Inl e
         | Inr selected_indices \<Rightarrow>
             (case collect (getitem papers) (selected_positions papers selected_indices) of
                Inl e \<Rightarrow> Inl e
              | Inr selected_papers \<Rightarrow> Inr (selected_papers, selected_indices)))"

definition try_select ::
    "digit_table \<Rightarrow> nat option \<Rightarrow> service \<Rightarrow> paper list \<Rightarrow> error + (paper list \<times> int list)"
  where
  "try_select nd lim svc papers =
     (case svc 0 (selection_prompt papers) of
        None \<Rightarrow> Inl ServiceError
      | Some raw \<Rightarrow> parse_response nd lim papers raw)"

text \<open>
  \<^verbatim>\<open>try ... except Exception\<close>: any exception of the body gives the first three papers
  and the indices \<open>[0, 1, 2]\<close>.
\<close>

definition select ::
    "digit_table \<Rightarrow> nat option \<Rightarrow> service \<Rightarrow> paper list \<Rightarrow> paper list \<times> int list" where
  "select nd lim svc papers =
     (case try_select nd lim svc papers of
        Inr r \<Rightarrow> r
      | Inl e \<Rightarrow> (take 3 papers, [0, 1, 2]))"

section \<open>Narratives, bonus list and assembly: \<^verbatim>\<open>_create_summary_content\<close>\<close>

definition header :: "string \<Rightarrow> string" where
  "header now = ''<h1>Daily AI Research Digest</h1><p>'' @ now @ ''</p><hr>''"

definition narrative_prompt :: "paper \<Rightarrow> string" where
  "narrative_prompt paper = concat [
     ''\<newline>'',
     ''            Role: Tech Journalist covering breakthrough AI research.\<newline>'',
     ''            Task: Write a compelling, insight-dense summary for the following paper.\<newline>'',
     ''            \<newline>'',
     ''            Paper Title: '' @ title paper @ ''\<newline>'',
     ''            Abstract: '' @ abstract paper @ ''\<newline>'',
     ''            \<newline>'',
     ''            Guidelines:\<newline>'',
     ''            - **The Big Idea**: What is the core innovation in 1 sentence?\<newline>'',
     ''            - **Key Details**: How does it work? (2-3 sentences)\<newline>'',
     ''            - **Why it Matters**: Impact on the field.\<newline>'',
     ''            - Tone: Professional, enthusiastic, clear.\<newline>'',
     ''            \<newline>'',
     ''            Output strictly HTML format (no markdown code blocks):\<newline>'',
     ''            <div style='' @ dq @ ''margin-bottom: 30px;'' @ dq @ ''>\<newline>'',
     ''                <h3><a href='' @ dq @ url paper @ dq @ '' style='' @ dq @ ''color: #2c3e50; text-decoration: none;'' @ dq @ ''>'' @ title paper @ ''</a></h3>\<newline>'',
     ''                <p style='' @ dq @ ''color: #666; font-size: 0.9em;'' @ dq @ ''><em>Published: '' @ published paper @ ''</em></p>\<newline>'',
     ''                <p><strong>'' @ rocket @ '' The Big Idea:</strong> [Content]</p>\<newline>'',
     ''                <p><strong>'' @ gear @ '' How it Works:</strong> [Content]</p>\<newline>'',
     ''                <p><strong>'' @ bulb @ '' Why it Matters:</strong> [Content]</p>\<newline>'',
     ''            </div>\<newline>'',
     ''            '']"

text \<open>
  \<^verbatim>\<open>s.replace(old, new)\<close>: the occurrences of \<open>old\<close> are replaced from left to right,
  without overlap; an empty \<open>old\<close> matches before every character and at the end.
\<close>

function replace :: "string \<Rightarrow> string \<Rightarrow> string \<Rightarrow> string" where
  "replace old new s =
     (if old = [] then new @ concat (map (\<lambda>c. c # new) s)
      else if take (length old) s = old then new @ replace old new (drop (length old) s)
      else (case s of [] \<Rightarrow> [] | c # cs \<Rightarrow> c # replace old new cs))"
  by pat_completeness auto
termination
proof (relation "measure (\<lambda>(old, new, s). length s)")
  fix old new s :: string
  assume "old \<noteq> []" and "take (length old) s = old"
  then have "s \<noteq> []" by auto
  with \<open>old \<noteq> []\<close>
  show "((old, new, drop (length old) s), (old, new, s)) \<in> measure (\<lambda>(old, new, s). length s)"
    by simp
qed auto

definition sanitize :: "string \<Rightarrow> string" where
  "sanitize text = replace (bq @ bq @ bq) [] (replace (bq @ bq @ bq @ ''html'') [] text)"

text \<open>
  The loop over \<^verbatim>\<open>selected_papers\<close>. \<open>n\<close> is the number of the next request to the
  service; a request that raises is caught, logged and leaves \<^verbatim>\<open>summary_html\<close> as it is.
\<close>

fun narrative_loop :: "service \<Rightarrow> nat \<Rightarrow> paper list \<Rightarrow> string \<Rightarrow> string" where
  "narrative_loop svc n [] summary_html = summary_html"
| "narrative_loop svc n (paper # rest) summary_html =
     (case svc n (narrative_prompt paper) of
        Some text \<Rightarrow> narrative_loop svc (Suc n) rest (summary_html @ sanitize text)
      | None \<Rightarrow> narrative_loop svc (Suc n) rest summary_html)"

text \<open>
  \<^verbatim>\<open>[p for i, p in enumerate(all_papers) if i not in selected_indices]\<close>, with and without
  the positions.
\<close>

definition remaining_indexed :: "paper list \<Rightarrow> int list \<Rightarrow> (nat \<times> paper) list" where
  "remaining_indexed all_papers selected_indices =
     filter (\<lambda>(i, p). int i \<notin> set selected_indices) (enumerate 0 all_papers)"

definition remaining_papers :: "paper list \<Rightarrow> int list \<Rightarrow> paper list" where
  "remaining_papers all_papers selected_indices =
     map snd (remaining_indexed all_papers selected_indices)"

text \<open>
  \<^verbatim>\<open>random.sample(population, k)\<close>: \<open>k\<close> elements at pairwise different positions of the
  population, in the order drawn; \<^verbatim>\<open>ValueError\<close> when \<open>k\<close> is larger than the
  population. The source of randomness is the sequence \<open>rnd\<close> of raw draws: the \<open>t\<close>-th
  pick takes position \<open>rnd t mod m\<close> of the \<open>m\<close> elements still in the pool and moves
  the last element of the pool into its place, as the library's pool branch does.
\<close>

type_synonym rng = "nat \<Rightarrow> nat"

fun draw :: "rng \<Rightarrow> nat \<Rightarrow> 'a list \<Rightarrow> nat \<Rightarrow> 'a list" where
  "draw rnd t pool 0 = []"
| "draw rnd t pool (Suc k) =
     (if pool = [] then []
      else (let j = rnd t mod length pool
            in pool ! j # draw rnd (Suc t) (butlast (pool[j := last pool])) k))"

definition sample :: "rng \<Rightarrow> 'a list \<Rightarrow> nat \<Rightarrow> error + 'a list" where
  "sample rnd population k =
     (if length population < k then Inl ValueError else Inr (draw rnd 0 population k))"

definition bonus_item :: "paper \<Rightarrow> string" where
  "bonus_item paper =
     ''<li><a href='' @ sq @ url paper @ sq @ '' style='' @ sq @ ''color: #3498db;'' @ sq
       @ ''>'' @ title paper @ ''</a></li>''"

fun bonus_loop :: "paper list \<Rightarrow> string \<Rightarrow> string" where
  "bonus_loop [] summary_html = summary_html"
| "bonus_loop (paper # rest) summary_html = bonus_loop rest (summary_html @ bonus_item paper)"

definition bonus_heading :: string where
  "bonus_heading = ''<hr><h2>'' @ books @ '' Read More Good Articles</h2>''"

definition bonus_list_open :: string where
  "bonus_list_open = ''<ul style='' @ sq @ ''line-height: 1.8;'' @ sq @ ''>''"

text \<open>
  \<open>now\<close> is \<^verbatim>\<open>datetime.now().strftime('%B %d, %Y')\<close>. The call of \<^verbatim>\<open>random.sample\<close> is
  outside every \<^verbatim>\<open>try\<close>: its exception would leave the function.
\<close>

definition create_summary_content ::
    "service \<Rightarrow> nat \<Rightarrow> rng \<Rightarrow> string \<Rightarrow> paper list \<Rightarrow> paper list \<Rightarrow> int list \<Rightarrow> error + string"
  where
  "create_summary_content svc n rnd now selected_papers all_papers selected_indices =
     (let summary_html = narrative_loop svc n selected_papers (header now);
          remaining = remaining_papers all_papers selected_indices
      in case sample rnd remaining (min 3 (length remaining)) of
           Inl e \<Rightarrow> Inl e
         | Inr bonus \<Rightarrow>
             Inr (bonus_loop bonus (summary_html @ bonus_heading @ bonus_list_open)
                  @ ''</ul>''))"

text \<open>
  \<^verbatim>\<open>generate_digest\<close>: request 0 is the selection, the narratives are the requests from
  1 on.
\<close>

definition generate_digest ::
    "digit_table \<Rightarrow> nat option \<Rightarrow> service \<Rightarrow> rng \<Rightarrow> string \<Rightarrow> paper list \<Rightarrow> error + string"
  where
  "generate_digest nd lim svc rnd now papers =
     (case select nd lim svc papers of
        (selected_papers, selected_indices) \<Rightarrow>
          create_summary_content svc 1 rnd now selected_papers papers selected_indices)"

text \<open>
  What the run shows of its intermediate values: the narrative fragments appended by the
  loop, and the bonus draw with its positions.
\<close>

fun fragments :: "service \<Rightarrow> nat \<Rightarrow> paper list \<Rightarrow> string list" where
  "fragments svc n [] = []"
| "fragments svc n (paper # rest) =
     (case svc n (narrative_prompt paper) of
        Some text \<Rightarrow> sanitize text # fragments svc (Suc n) rest
      | None \<Rightarrow> fragments svc (Suc n) rest)"

definition bonus_indexed :: "rng \<Rightarrow> paper list \<Rightarrow> int list \<Rightarrow> (nat \<times> paper) list" where
  "bonus_indexed rnd all_papers selected_indices =
     (let remaining = remaining_indexed all_papers selected_indices
      in draw rnd 0 remaining (min 3 (length remaining)))"

definition bonus_papers :: "rng \<Rightarrow> paper list \<Rightarrow> int list \<Rightarrow> paper list" where
  "bonus_papers rnd all_papers selected_indices =
     (let remaining = remaining_papers all_papers selected_indices
      in draw rnd 0 remaining (min 3 (length remaining)))"

section \<open>Configuration and start-up\<close>

type_synonym env = "string \<rightharpoonup> string"

record configuration =
  gemini_api_key :: "string option"
  email_address :: "string option"
  email_password :: "string option"
  receiver_emails :: "string list"
  model_name :: string

text \<open>\<^verbatim>\<open>s.split(sep)\<close> for a separator of one character.\<close>

fun split_on :: "char \<Rightarrow> string \<Rightarrow> string list" where
  "split_on sep [] = [[]]"
| "split_on sep (c # cs) =
     (if c = sep then [] # split_on sep cs
      else (case split_on sep cs of
              [] \<Rightarrow> [[c]]
            | w # ws \<Rightarrow> (c # w) # ws))"

definition getenv_default :: "env \<Rightarrow> string \<Rightarrow> string \<Rightarrow> string" where
  "getenv_default e k d = (case e k of None \<Rightarrow> d | Some v \<Rightarrow> v)"

text \<open>
  \<^verbatim>\<open>Configuration.__init__\<close>. The branch on an empty receiver list is \<^verbatim>\<open>pass\<close>: it
  changes nothing.
\<close>

definition Configuration_init :: "env \<Rightarrow> configuration" where
  "Configuration_init e =
     \<lparr>gemini_api_key = e ''GEMINI_API_KEY'',
      email_address = e ''EMAIL_ADDRESS'',
      email_password = e ''EMAIL_PASSWORD'',
      receiver_emails = split_on CHR '','' (getenv_default e ''RECEIVER_EMAILS'' []),
      model_name = ''gemini-3-flash-preview''\<rparr>"

text \<open>Truth values: \<^verbatim>\<open>None\<close>, the empty string and the empty list are false.\<close>

definition truthy_str :: "string option \<Rightarrow> bool" where
  "truthy_str v = (case v of None \<Rightarrow> False | Some s \<Rightarrow> s \<noteq> [])"

definition truthy_list :: "'a list \<Rightarrow> bool" where
  "truthy_list xs = (xs \<noteq> [])"

definition validate :: "configuration \<Rightarrow> error + unit" where
  "validate c =
     (if \<not> (truthy_str (gemini_api_key c) \<and> truthy_str (email_address c)
             \<and> truthy_str (email_password c) \<and> truthy_list (receiver_emails c))
      then Inl ValueError else Inr ())"

text \<open>
  \<^verbatim>\<open>DailyDigestApp.__init__\<close>: the configuration is read and validated before anything
  else is built; \<^verbatim>\<open>run\<close> is only reached on \<open>Inr\<close>.
\<close>

definition app_init :: "env \<Rightarrow> error + configuration" where
  "app_init e =
     (let config = Configuration_init e
      in case validate config of Inl err \<Rightarrow> Inl err | Inr u \<Rightarrow> Inr config)"

section \<open>Concrete inputs\<close>

text \<open>A corpus of \<open>n\<close> papers with pairwise different fields, for concrete runs.\<close>

definition demo_paper :: "nat \<Rightarrow> paper" where
  "demo_paper i =
     \<lparr>title = ''T'' @ str_nat i, abstract = ''A'' @ str_nat i,
      url = ''u/'' @ str_nat i, published = ''2026-01-0'' @ str_nat i\<rparr>"

definition demo_corpus :: "nat \<Rightarrow> paper list" where
  "demo_corpus n = map demo_paper [0..<n]"

text \<open>
  Two responses with digits outside ASCII: 12 written with an ASCII one and an
  ARABIC-INDIC DIGIT TWO (U+0662), followed by an ASCII 4; and a run of 4301 times the
  ARABIC-INDIC DIGIT ONE (U+0661).
\<close>

definition demo_reply_mixed :: string where
  "demo_reply_mixed = ''1'' @ [CHR 0xD9, CHR 0xA2] @ '', 4''"

definition demo_reply_long :: string where
  "demo_reply_long = concat (replicate 4301 [CHR 0xD9, CHR 0xA1])"

section \<open>Facts about the parser\<close>

lemma collect_map_Inr:
  "collect (\<lambda>x. Inr (g x)) xs = Inr (map g xs)"
  by (induction xs) simp_all

lemma collect_cong_set:
  "(\<And>x. x \<in> set xs \<Longrightarrow> f x = Inr (g x)) \<Longrightarrow> collect f xs = Inr (map g xs)"
  by (induction xs) simp_all

lemma collect_getitem_guarded:
  "collect (getitem papers) (selected_positions papers si) =
     Inr (map (\<lambda>i. papers ! nat i) (selected_positions papers si))"
  by (rule collect_cong_set) (auto simp: selected_positions_def in_range_def getitem_def Let_def)

lemma collect_py_int_ok:
  "\<forall>tok\<in>set toks. \<not> exceeds_limit lim tok \<Longrightarrow>
     collect (py_int nd lim) toks = Inr (map (int_of_digits nd) toks)"
  by (rule collect_cong_set) (simp add: py_int_def)

lemma collect_py_int_fail:
  "\<exists>tok\<in>set toks. exceeds_limit lim tok \<Longrightarrow> collect (py_int nd lim) toks = Inl ValueError"
proof (induction toks)
  case Nil
  then show ?case by simp
next
  case (Cons a toks)
  show ?case
  proof (cases "exceeds_limit lim a")
    case True
    then show ?thesis by (simp add: py_int_def)
  next
    case False
    with Cons.prems have "\<exists>tok\<in>set toks. exceeds_limit lim tok" by simp
    with Cons.IH False show ?thesis by (simp add: py_int_def)
  qed
qed

lemma take3_fallback:
  "take 3 papers = map (\<lambda>i. papers ! nat i) (selected_positions papers [0, 1, 2])"
proof (cases papers)
  case Nil
  then show ?thesis by (simp add: selected_positions_def in_range_def)
next
  case (Cons a as)
  note c1 = this
  show ?thesis
  proof (cases as)
    case Nil
    with c1 show ?thesis by (simp add: selected_positions_def in_range_def)
  next
    case (Cons b bs)
    note c2 = this
    show ?thesis
    proof (cases bs)
      case Nil
      with c1 c2 show ?thesis by (simp add: selected_positions_def in_range_def)
    next
      case (Cons c cs)
      with c1 c2 show ?thesis
        by (simp add: selected_positions_def in_range_def numeral_3_eq_3)
    qed
  qed
qed

lemma fallback_positions:
  "selected_positions papers [0, 1, 2] = map int [0..<min 3 (length papers)]"
proof -
  consider "length papers = 0" | "length papers = 1" | "length papers = 2" | "3 \<le> length papers"
    by linarith
  then show ?thesis
  proof cases
    case 1 then show ?thesis by (simp add: selected_positions_def in_range_def)
  next
    case 2 then show ?thesis by (simp add: selected_positions_def in_range_def)
  next
    case 3 then show ?thesis
      by (simp add: selected_positions_def in_range_def upt_conv_Cons)
  next
    case 4 then show ?thesis
      by (auto simp: selected_positions_def in_range_def min_def upt_conv_Cons)
  qed
qed

lemma parse_response_ok:
  assumes "\<forall>tok\<in>set (take 3 (findall_digits nd (strip raw))). \<not> exceeds_limit lim tok"
  shows "parse_response nd lim papers raw =
     Inr (map (\<lambda>i. papers ! nat i)
            (selected_positions papers
               (map (int_of_digits nd) (take 3 (findall_digits nd (strip raw))))),
          map (int_of_digits nd) (take 3 (findall_digits nd (strip raw))))"
  using assms
  by (simp add: parse_response_def Let_def collect_py_int_ok collect_getitem_guarded)

lemma parse_response_fail:
  assumes "\<exists>tok\<in>set (take 3 (findall_digits nd (strip raw))). exceeds_limit lim tok"
  shows "parse_response nd lim papers raw = Inl ValueError"
  using assms
  by (simp add: parse_response_def Let_def collect_py_int_fail)

lemma length_selected_positions: "length (selected_positions papers si) \<le> length si"
  by (simp add: selected_positions_def)

lemma select_cases:
  "select nd lim svc papers = (take 3 papers, [0, 1, 2]) \<or>
   (\<exists>raw. svc 0 (selection_prompt papers) = Some raw \<and>
      (\<forall>tok\<in>set (take 3 (findall_digits nd (strip raw))). \<not> exceeds_limit lim tok) \<and>
      select nd lim svc papers =
        (map (\<lambda>i. papers ! nat i)
           (selected_positions papers
              (map (int_of_digits nd) (take 3 (findall_digits nd (strip raw))))),
         map (int_of_digits nd) (take 3 (findall_digits nd (strip raw)))))"
proof (cases "svc 0 (selection_prompt papers)")
  case None
  then show ?thesis by (simp add: select_def try_select_def)
next
  case (Some raw)
  show ?thesis
  proof (cases "\<exists>tok\<in>set (take 3 (findall_digits nd (strip raw))). exceeds_limit lim tok")
    case True
    then have "parse_response nd lim papers raw = Inl ValueError" by (rule parse_response_fail)
    with Some show ?thesis by (simp add: select_def try_select_def)
  next
    case False
    then have ok: "\<forall>tok\<in>set (take 3 (findall_digits nd (strip raw))). \<not> exceeds_limit lim tok"
      by simp
    from parse_response_ok [OF ok, of papers] Some ok show ?thesis
      by (simp add: select_def try_select_def)
  qed
qed

text \<open>The characters of a string give the string back; a run of digits is one token.\<close>

lemma concat_utf8_chars: "concat (utf8_chars s) = s"
  by (induction s rule: utf8_chars.induct) simp_all

lemma dropWhile_none: "\<forall>x\<in>set xs. \<not> P x \<Longrightarrow> dropWhile P xs = xs"
  by (cases xs) simp_all

lemma strip_no_space:
  assumes "\<forall>c\<in>set (utf8_chars s). \<not> is_space c"
  shows "strip s = s"
proof -
  from assms have "dropWhile is_space (utf8_chars s) = utf8_chars s"
    by (rule dropWhile_none)
  moreover from assms have "dropWhile is_space (rev (utf8_chars s)) = rev (utf8_chars s)"
    by (intro dropWhile_none) simp
  ultimately show ?thesis by (simp add: strip_def concat_utf8_chars)
qed

lemma scan_digits_run:
  "\<forall>c\<in>set cs. nd c \<noteq> None \<Longrightarrow> cur @ cs \<noteq> [] \<Longrightarrow> scan_digits nd cur cs = [cur @ cs]"
  by (induction cs arbitrary: cur) simp_all

lemma utf8_chars_replicate2:
  "utf8_len b0 = 2 \<Longrightarrow> utf8_chars (concat (replicate n [b0, b1])) = replicate n [b0, b1]"
  by (induction n) simp_all

lemma findall_digits_long_run:
  assumes "utf8_len b0 = 2" and "nd [b0, b1] \<noteq> None" and "\<not> is_space [b0, b1]" and "0 < n"
  shows "findall_digits nd (strip (concat (replicate n [b0, b1]))) = [replicate n [b0, b1]]"
proof -
  have chars: "utf8_chars (concat (replicate n [b0, b1])) = replicate n [b0, b1]"
    using assms(1) by (rule utf8_chars_replicate2)
  with assms(3) have "strip (concat (replicate n [b0, b1])) = concat (replicate n [b0, b1])"
    by (intro strip_no_space) simp
  moreover have "scan_digits nd [] (replicate n [b0, b1]) = [[] @ replicate n [b0, b1]]"
    using assms(2) assms(4) by (intro scan_digits_run) simp_all
  ultimately show ?thesis by (simp add: findall_digits_def chars)
qed

text \<open>
  Every token is a run of digits that is not empty, and a text without digits has no
  token.
\<close>

lemma scan_digits_tokens:
  "\<forall>c\<in>set cur. nd c \<noteq> None \<Longrightarrow>
     \<forall>tok\<in>set (scan_digits nd cur cs). tok \<noteq> [] \<and> (\<forall>c\<in>set tok. nd c \<noteq> None)"
proof (induction cs arbitrary: cur)
  case Nil
  then show ?case by (simp del: not_None_eq)
next
  case (Cons a cs)
  show ?case
  proof (cases "nd a \<noteq> None")
    case True
    with Cons.prems have "\<forall>c\<in>set (cur @ [a]). nd c \<noteq> None"
      by (simp del: not_None_eq)
    from Cons.IH [OF this] True show ?thesis by (simp del: not_None_eq)
  next
    case False
    have "\<forall>c\<in>set ([] :: string list). nd c \<noteq> None" by simp
    from Cons.IH [OF this] Cons.prems False show ?thesis
      by (cases "cur = []") (simp_all del: not_None_eq)
  qed
qed

lemma findall_digits_tokens:
  "\<forall>tok\<in>set (findall_digits nd s). tok \<noteq> [] \<and> (\<forall>c\<in>set tok. nd c \<noteq> None)"
  unfolding findall_digits_def by (rule scan_digits_tokens) simp

lemma scan_digits_no_digit:
  "\<forall>c\<in>set cs. nd c = None \<Longrightarrow> scan_digits nd [] cs = []"
  by (induction cs) simp_all

lemma length_demo_corpus [simp]: "length (demo_corpus n) = n"
  by (simp add: demo_corpus_def)

lemma nth_demo_corpus [simp]: "i < n \<Longrightarrow> demo_corpus n ! i = demo_paper i"
  by (simp add: demo_corpus_def)

text \<open>
  Tokens of concrete responses under the table of Unicode 14.0. \<open>[CHR 0xD9, CHR 0xA1]\<close>,
  \<open>[CHR 0xD9, CHR 0xA2]\<close> and \<open>[CHR 0xD9, CHR 0xA3]\<close> are the ARABIC-INDIC DIGITS ONE, TWO
  and THREE (U+0661 to U+0663).
\<close>

lemma demo_idx_c1:
  "map (int_of_digits unicode_nd) (take 3 (findall_digits unicode_nd (strip ''0, 2, 2, 5, 99''))) = [0, 2, 2]"
  by code_simp

lemma demo_ok_c1:
  "\<forall>tok\<in>set (take 3 (findall_digits unicode_nd (strip ''0, 2, 2, 5, 99''))). \<not> exceeds_limit (Some 4300) tok"
  by code_simp

lemma demo_idx_mixed:
  "map (int_of_digits unicode_nd) (take 3 (findall_digits unicode_nd (strip demo_reply_mixed))) = [12, 4]"
  by code_simp

lemma demo_ok_mixed:
  "\<forall>tok\<in>set (take 3 (findall_digits unicode_nd (strip demo_reply_mixed))). \<not> exceeds_limit (Some 4300) tok"
  by code_simp

lemma demo_idx_far:
  "map (int_of_digits unicode_nd) (take 3 (findall_digits unicode_nd (strip ''99, 100''))) = [99, 100]"
  by code_simp

lemma demo_ok_far:
  "\<forall>tok\<in>set (take 3 (findall_digits unicode_nd (strip ''99, 100''))). \<not> exceeds_limit (Some 4300) tok"
  by code_simp

lemma demo_idx_none:
  "map (int_of_digits unicode_nd) (take 3 (findall_digits unicode_nd (strip ''no digits''))) = []"
  by code_simp

lemma demo_ok_none:
  "\<forall>tok\<in>set (take 3 (findall_digits unicode_nd (strip ''no digits''))). \<not> exceeds_limit (Some 4300) tok"
  by code_simp

lemma demo_idx_empty:
  "map (int_of_digits unicode_nd) (take 3 (findall_digits unicode_nd (strip []))) = []"
  by code_simp

lemma demo_ok_empty:
  "\<forall>tok\<in>set (take 3 (findall_digits unicode_nd (strip []))). \<not> exceeds_limit (Some 4300) tok"
  by code_simp

lemma demo_idx_dup:
  "map (int_of_digits unicode_nd) (take 3 (findall_digits unicode_nd (strip ''2, 2''))) = [2, 2]"
  by code_simp

lemma demo_ok_dup:
  "\<forall>tok\<in>set (take 3 (findall_digits unicode_nd (strip ''2, 2''))). \<not> exceeds_limit (Some 4300) tok"
  by code_simp

lemma demo_idx_oob:
  "map (int_of_digits unicode_nd) (take 3 (findall_digits unicode_nd (strip ''7, 8''))) = [7, 8]"
  by code_simp

lemma demo_ok_oob:
  "\<forall>tok\<in>set (take 3 (findall_digits unicode_nd (strip ''7, 8''))). \<not> exceeds_limit (Some 4300) tok"
  by code_simp

lemma demo_arabic_len: "utf8_len (CHR 0xD9) = 2"
  by code_simp

lemma demo_arabic_one: "unicode_nd [CHR 0xD9, CHR 0xA1] = Some 1"
  by code_simp

lemma demo_arabic_no_space: "is_space [CHR 0xD9, CHR 0xA1] = False"
  by code_simp

lemma demo_tokens_long:
  "findall_digits unicode_nd (strip demo_reply_long) = [replicate 4301 [CHR 0xD9, CHR 0xA1]]"
  unfolding demo_reply_long_def
  by (rule findall_digits_long_run)
    (simp_all add: demo_arabic_len demo_arabic_one demo_arabic_no_space)

lemma demo_parse:
  "parse_response unicode_nd (Some 4300) (demo_corpus 10) ''0, 2, 2, 5, 99'' =
     Inr ([demo_paper 0, demo_paper 2, demo_paper 2], [0, 2, 2])"
  using parse_response_ok [OF demo_ok_c1, of "demo_corpus 10"]
  by (simp add: demo_idx_c1 selected_positions_def in_range_def)

section \<open>The response parser\<close>

text \<open>
  C1, as the code has it. The parser keeps the first three runs of decimal digits of the
  response, in the order they appear, and converts them; the digits are those of every
  script that the interpreter's table knows. It does not collapse duplicates, and it
  cuts to three before it looks at the range. The papers selected are those at the kept
  indices that lie in \<open>[0, N)\<close>; an index outside is discarded, not clamped. The
  hypothesis is that none of the three tokens has more digits than the interpreter's
  limit on integer strings. For \<open>N = 10\<close> and the tokens \<open>0, 2, 2, 5, 99\<close> the result is
  \<open>[0, 2, 2]\<close>.
\<close>

theorem parse_response_first_three_tokens:
  assumes "\<forall>tok\<in>set (take 3 (findall_digits nd (strip raw))). \<not> exceeds_limit lim tok"
  shows "parse_response nd lim papers raw =
     Inr (map (\<lambda>i. papers ! nat i)
            (selected_positions papers
               (map (int_of_digits nd) (take 3 (findall_digits nd (strip raw))))),
          map (int_of_digits nd) (take 3 (findall_digits nd (strip raw))))"
  using assms by (rule parse_response_ok)

text \<open>
  The theorem at the input of C1, and at the response that writes 12 with an ASCII and an
  ARABIC-INDIC digit, on a corpus of twenty papers: the hypothesis holds at both.
\<close>

theorem parse_response_first_three_tokens_witness:
  "parse_response unicode_nd (Some 4300) (demo_corpus 10) ''0, 2, 2, 5, 99'' =
     Inr ([demo_paper 0, demo_paper 2, demo_paper 2], [0, 2, 2])
   \<and> parse_response unicode_nd (Some 4300) (demo_corpus 20)
         demo_reply_mixed =
     Inr ([demo_paper 12, demo_paper 4], [12, 4])"
proof -
  have a: "parse_response unicode_nd (Some 4300) (demo_corpus 10) ''0, 2, 2, 5, 99'' =
     Inr ([demo_paper 0, demo_paper 2, demo_paper 2], [0, 2, 2])"
    using parse_response_first_three_tokens [OF demo_ok_c1, of "demo_corpus 10"]
    by (simp add: demo_idx_c1 selected_positions_def in_range_def)
  have b: "parse_response unicode_nd (Some 4300) (demo_corpus 20)
         demo_reply_mixed =
     Inr ([demo_paper 12, demo_paper 4], [12, 4])"
    using parse_response_first_three_tokens [OF demo_ok_mixed, of "demo_corpus 20"]
    by (simp add: demo_idx_mixed selected_positions_def in_range_def)
  from a b show ?thesis by simp
qed

text \<open>
  C1 as stated fails at its own input: neither the indices kept nor the positions
  selected are \<open>[0, 2, 5]\<close>.
\<close>

theorem parse_response_keeps_duplicates_counterexample:
  "map_sum id snd (parse_response unicode_nd (Some 4300) (demo_corpus 10) ''0, 2, 2, 5, 99'')
     = Inr [0, 2, 2]
   \<and> map_sum id snd (parse_response unicode_nd (Some 4300) (demo_corpus 10) ''0, 2, 2, 5, 99'')
     \<noteq> Inr [0, 2, 5]
   \<and> map_sum id (selected_positions (demo_corpus 10) \<circ> snd)
         (parse_response unicode_nd (Some 4300) (demo_corpus 10) ''0, 2, 2, 5, 99'')
     \<noteq> Inr [0, 2, 5]"
  by (simp add: demo_parse selected_positions_def in_range_def)


section \<open>Selection and its fallback\<close>

text \<open>
  C2, as the code has it. The fallback is the \<^verbatim>\<open>except\<close> branch, so it is taken exactly
  when the body of the \<^verbatim>\<open>try\<close> raises: the request fails or its response has no text,
  or one of the first three tokens has more digits than the interpreter's limit on
  integer strings. Then the selected papers are the first three of the corpus (all of it
  when \<open>N < 3\<close>) and the indices are \<open>[0, 1, 2]\<close>; the papers are those at the indices
  within range, as for a parsed selection. A response whose first three tokens give no
  index within range (no digits at all, or only numbers out of range) raises nothing:
  the selection is then empty and there is no fallback. The tokens are the runs of
  decimal digits of any script, as the interpreter's table has them.
\<close>

theorem select_fallback_on_exception:
  "(svc 0 (selection_prompt papers) = None \<longrightarrow>
      select nd lim svc papers = (take 3 papers, [0, 1, 2]))
   \<and> (\<forall>raw. svc 0 (selection_prompt papers) = Some raw
          \<and> (\<exists>tok\<in>set (take 3 (findall_digits nd (strip raw))). exceeds_limit lim tok) \<longrightarrow>
        select nd lim svc papers = (take 3 papers, [0, 1, 2]))
   \<and> (\<forall>raw. svc 0 (selection_prompt papers) = Some raw
          \<and> (\<forall>tok\<in>set (take 3 (findall_digits nd (strip raw))). \<not> exceeds_limit lim tok)
          \<and> selected_positions papers
                (map (int_of_digits nd) (take 3 (findall_digits nd (strip raw)))) = [] \<longrightarrow>
        select nd lim svc papers
          = ([], map (int_of_digits nd) (take 3 (findall_digits nd (strip raw)))))
   \<and> take 3 papers = map (\<lambda>i. papers ! nat i) (selected_positions papers [0, 1, 2])
   \<and> selected_positions papers [0, 1, 2] = map int [0..<min 3 (length papers)]"
proof (intro conjI allI impI)
  assume "svc 0 (selection_prompt papers) = None"
  then show "select nd lim svc papers = (take 3 papers, [0, 1, 2])"
    by (simp add: select_def try_select_def)
next
  fix raw
  assume "svc 0 (selection_prompt papers) = Some raw
          \<and> (\<exists>tok\<in>set (take 3 (findall_digits nd (strip raw))). exceeds_limit lim tok)"
  then show "select nd lim svc papers = (take 3 papers, [0, 1, 2])"
    by (simp add: select_def try_select_def parse_response_fail)
next
  fix raw
  assume a: "svc 0 (selection_prompt papers) = Some raw
          \<and> (\<forall>tok\<in>set (take 3 (findall_digits nd (strip raw))). \<not> exceeds_limit lim tok)
          \<and> selected_positions papers
                (map (int_of_digits nd) (take 3 (findall_digits nd (strip raw)))) = []"
  then have "parse_response nd lim papers raw =
      Inr ([], map (int_of_digits nd) (take 3 (findall_digits nd (strip raw))))"
    using parse_response_ok [of nd raw lim papers] by simp
  with a show "select nd lim svc papers =
      ([], map (int_of_digits nd) (take 3 (findall_digits nd (strip raw))))"
    by (simp add: select_def try_select_def)
next
  show "take 3 papers = map (\<lambda>i. papers ! nat i) (selected_positions papers [0, 1, 2])"
    by (rule take3_fallback)
next
  show "selected_positions papers [0, 1, 2] = map int [0..<min 3 (length papers)]"
    by (rule fallback_positions)
qed

text \<open>
  The three implications at concrete runs, with the default limit of 4300 digits: a
  failed request on a corpus of two papers, a response of 4301 ARABIC-INDIC digits, and a
  response with numbers out of range only.
\<close>

theorem select_fallback_on_exception_witness:
  "select unicode_nd (Some 4300) (\<lambda>n p. None) (demo_corpus 2)
     = ([demo_paper 0, demo_paper 1], [0, 1, 2])
   \<and> select unicode_nd (Some 4300) (\<lambda>n p. Some demo_reply_long) (demo_corpus 5)
       = ([demo_paper 0, demo_paper 1, demo_paper 2], [0, 1, 2])
   \<and> select unicode_nd (Some 4300) (\<lambda>n p. Some ''99, 100'') (demo_corpus 5) = ([], [99, 100])"
proof -
  have none: "select unicode_nd (Some 4300) (\<lambda>n p. None) (demo_corpus 2)
      = (take 3 (demo_corpus 2), [0, 1, 2])"
    using select_fallback_on_exception
      [of "\<lambda>n p. None" "demo_corpus 2" unicode_nd "Some 4300", THEN conjunct1]
    by simp
  have long: "select unicode_nd (Some 4300) (\<lambda>n p. Some demo_reply_long) (demo_corpus 5)
      = (take 3 (demo_corpus 5), [0, 1, 2])"
    using select_fallback_on_exception
      [of "\<lambda>n p. Some demo_reply_long" "demo_corpus 5" unicode_nd "Some 4300",
        THEN conjunct2, THEN conjunct1]
    by (simp add: demo_tokens_long exceeds_limit_def)
  have far: "select unicode_nd (Some 4300) (\<lambda>n p. Some ''99, 100'') (demo_corpus 5)
      = ([], [99, 100])"
    using select_fallback_on_exception
      [of "\<lambda>n p. Some ''99, 100''" "demo_corpus 5" unicode_nd "Some 4300",
        THEN conjunct2, THEN conjunct2, THEN conjunct1]
      demo_ok_far
    by (simp add: demo_idx_far selected_positions_def in_range_def)
  have t2: "take 3 (demo_corpus 2) = [demo_paper 0, demo_paper 1]"
    by (simp add: demo_corpus_def upt_conv_Cons)
  have t5: "take 3 (demo_corpus 5) = [demo_paper 0, demo_paper 1, demo_paper 2]"
    by (simp add: demo_corpus_def upt_conv_Cons numeral_2_eq_2)
  from none long far t2 t5 show ?thesis by simp
qed

lemma select_parsed:
  assumes "\<forall>tok\<in>set (take 3 (findall_digits nd (strip raw))). \<not> exceeds_limit lim tok"
  shows "select nd lim (\<lambda>n p. Some raw) papers =
     (map (\<lambda>i. papers ! nat i)
        (selected_positions papers
           (map (int_of_digits nd) (take 3 (findall_digits nd (strip raw))))),
      map (int_of_digits nd) (take 3 (findall_digits nd (strip raw))))"
  using parse_response_ok [OF assms, of papers] by (simp add: select_def try_select_def)

text \<open>
  C2 as stated fails: an empty response, a response without digits and a response with
  numbers out of range only all leave the selection empty on a corpus of five papers.
\<close>

theorem select_no_fallback_counterexample:
  "select unicode_nd (Some 4300) (\<lambda>n p. Some []) (demo_corpus 5) = ([], [])
   \<and> select unicode_nd (Some 4300) (\<lambda>n p. Some ''no digits'') (demo_corpus 5) = ([], [])
   \<and> select unicode_nd (Some 4300) (\<lambda>n p. Some ''99, 100'') (demo_corpus 5) = ([], [99, 100])
   \<and> fst (select unicode_nd (Some 4300) (\<lambda>n p. Some []) (demo_corpus 5))
       \<noteq> take 3 (demo_corpus 5)
   \<and> snd (select unicode_nd (Some 4300) (\<lambda>n p. Some []) (demo_corpus 5)) \<noteq> [0, 1, 2]"
  using select_parsed [OF demo_ok_empty, of "demo_corpus 5"]
    select_parsed [OF demo_ok_none, of "demo_corpus 5"]
    select_parsed [OF demo_ok_far, of "demo_corpus 5"]
  by (simp add: demo_idx_empty demo_idx_none demo_idx_far selected_positions_def in_range_def
      demo_corpus_def)

text \<open>
  C3, as the code has it, for a corpus of any size and any behaviour of the service: at
  most three indices are kept, at most three papers are selected, the papers selected
  are the corpus papers at the kept indices that pass the range guard, in that order, and
  every such position lies in \<open>[0, N)\<close>. The positions need not be pairwise distinct.
\<close>

theorem select_invariants:
  "length (snd (select nd lim svc papers)) \<le> 3
   \<and> length (fst (select nd lim svc papers)) \<le> 3
   \<and> fst (select nd lim svc papers)
       = map (\<lambda>i. papers ! nat i) (selected_positions papers (snd (select nd lim svc papers)))
   \<and> (\<forall>i\<in>set (selected_positions papers (snd (select nd lim svc papers))).
         0 \<le> i \<and> i < int (length papers))"
proof -
  have rng: "\<forall>i\<in>set (selected_positions papers si). 0 \<le> i \<and> i < int (length papers)" for si
    by (simp add: selected_positions_def in_range_def)
  from select_cases [of nd lim svc papers] show ?thesis
  proof
    assume f: "select nd lim svc papers = (take 3 papers, [0, 1, 2])"
    then show ?thesis
      using take3_fallback [of papers] rng [of "[0, 1, 2]"]
        length_selected_positions [of papers "[0, 1, 2]"]
      by simp
  next
    assume "\<exists>raw. svc 0 (selection_prompt papers) = Some raw \<and>
      (\<forall>tok\<in>set (take 3 (findall_digits nd (strip raw))). \<not> exceeds_limit lim tok) \<and>
      select nd lim svc papers =
        (map (\<lambda>i. papers ! nat i)
           (selected_positions papers
              (map (int_of_digits nd) (take 3 (findall_digits nd (strip raw))))),
         map (int_of_digits nd) (take 3 (findall_digits nd (strip raw))))"
    then obtain raw where s: "select nd lim svc papers =
        (map (\<lambda>i. papers ! nat i)
           (selected_positions papers
              (map (int_of_digits nd) (take 3 (findall_digits nd (strip raw))))),
         map (int_of_digits nd) (take 3 (findall_digits nd (strip raw))))"
      by blast
    have "length (selected_positions papers
            (map (int_of_digits nd) (take 3 (findall_digits nd (strip raw))))) \<le> 3"
      using length_selected_positions
        [of papers "map (int_of_digits nd) (take 3 (findall_digits nd (strip raw)))"]
      by simp
    with s rng [of "map (int_of_digits nd) (take 3 (findall_digits nd (strip raw)))"]
    show ?thesis by simp
  qed
qed

lemma select_dup:
  "select unicode_nd (Some 4300) (\<lambda>n p. Some ''2, 2'') (demo_corpus 3)
     = ([demo_paper 2, demo_paper 2], [2, 2])"
  using select_parsed [OF demo_ok_dup, of "demo_corpus 3"]
  by (simp add: demo_idx_dup selected_positions_def in_range_def)

text \<open>The theorem at a response that names one paper twice.\<close>

theorem select_invariants_witness:
  "length (snd (select unicode_nd (Some 4300) (\<lambda>n p. Some ''2, 2'') (demo_corpus 3))) = 2
   \<and> fst (select unicode_nd (Some 4300) (\<lambda>n p. Some ''2, 2'') (demo_corpus 3))
       = [demo_corpus 3 ! 2, demo_corpus 3 ! 2]
   \<and> set (selected_positions (demo_corpus 3)
        (snd (select unicode_nd (Some 4300) (\<lambda>n p. Some ''2, 2'') (demo_corpus 3)))) = {2}"
  using select_invariants [of unicode_nd "Some 4300" "\<lambda>n p. Some ''2, 2''" "demo_corpus 3"]
  by (simp add: select_dup selected_positions_def in_range_def)

text \<open>
  C3 as stated fails for \<open>N = 3\<close>: the response \<open>2, 2\<close> selects paper 2 twice.
\<close>

theorem select_duplicate_positions_counterexample:
  "3 \<le> length (demo_corpus 3)
   \<and> select unicode_nd (Some 4300) (\<lambda>n p. Some ''2, 2'') (demo_corpus 3)
       = ([demo_paper 2, demo_paper 2], [2, 2])
   \<and> \<not> distinct (selected_positions (demo_corpus 3)
          (snd (select unicode_nd (Some 4300) (\<lambda>n p. Some ''2, 2'') (demo_corpus 3))))"
  by (simp add: select_dup selected_positions_def in_range_def)


section \<open>Facts about sampling\<close>

lemma mset_pool_step:
  assumes "j < length pool"
  shows "mset (butlast (pool[j := last pool])) = mset pool - {#pool ! j#}"
proof (cases pool rule: rev_cases)
  case Nil
  with assms show ?thesis by simp
next
  case (snoc ys l)
  show ?thesis
  proof (cases "j < length ys")
    case True
    then have "ys ! j \<in># mset ys" by simp
    with True snoc show ?thesis
      by (simp add: list_update_append1 nth_append mset_update)
  next
    case False
    with assms snoc have "j = length ys" by simp
    with snoc show ?thesis by simp
  qed
qed

lemma length_pool_step:
  "length (butlast (pool[j := last pool])) = length pool - 1"
  by simp

lemma length_draw:
  "k \<le> length pool \<Longrightarrow> length (draw rnd t pool k) = k"
proof (induction k arbitrary: t pool)
  case 0
  then show ?case by simp
next
  case (Suc k)
  then have ne: "pool \<noteq> []" by auto
  from Suc.prems have "k \<le> length (butlast (pool[rnd t mod length pool := last pool]))"
    by simp
  then have "length (draw rnd (Suc t) (butlast (pool[rnd t mod length pool := last pool])) k) = k"
    by (rule Suc.IH)
  with ne show ?case by (simp add: Let_def)
qed

lemma mset_draw:
  "mset (draw rnd t pool k) \<subseteq># mset pool"
proof (induction k arbitrary: t pool)
  case 0
  then show ?case by simp
next
  case (Suc k)
  show ?case
  proof (cases "pool = []")
    case True
    then show ?thesis by simp
  next
    case False
    define j where "j = rnd t mod length pool"
    from False have j: "j < length pool" by (simp add: j_def)
    have "mset (draw rnd (Suc t) (butlast (pool[j := last pool])) k)
            \<subseteq># mset pool - {#pool ! j#}"
      using Suc.IH [of "Suc t" "butlast (pool[j := last pool])"] mset_pool_step [OF j]
      by simp
    moreover from j have "pool ! j \<in># mset pool" by simp
    ultimately have "add_mset (pool ! j) (mset (draw rnd (Suc t) (butlast (pool[j := last pool])) k))
            \<subseteq># mset pool"
      by (metis insert_DiffM mset_subset_eq_add_mset_cancel)
    with False show ?thesis by (simp add: Let_def j_def)
  qed
qed

lemma set_draw: "set (draw rnd t pool k) \<subseteq> set pool"
  using set_mset_mono [OF mset_draw [of rnd t pool k]] by simp

lemma draw_map: "map f (draw rnd t pool k) = draw rnd t (map f pool) k"
proof (induction k arbitrary: t pool)
  case 0
  then show ?case by simp
next
  case (Suc k)
  show ?case
  proof (cases "pool = []")
    case True
    then show ?thesis by simp
  next
    case False
    then have j: "rnd t mod length pool < length pool" by simp
    from False have "map f (butlast (pool[rnd t mod length pool := last pool]))
        = butlast ((map f pool)[rnd t mod length pool := last (map f pool)])"
      by (simp add: map_butlast map_update last_map)
    with Suc.IH [of "Suc t" "butlast (pool[rnd t mod length pool := last pool])"] False j
    show ?thesis by (simp add: Let_def)
  qed
qed

lemma distinct_sub_mset:
  assumes "mset ys \<subseteq># mset xs" and "distinct xs"
  shows "distinct ys"
  unfolding distinct_count_atmost_1
proof (intro allI)
  fix a
  from assms(1) have le: "count (mset ys) a \<le> count (mset xs) a"
    by (simp add: mset_subset_eq_count)
  from assms(2) have one: "count (mset xs) a \<le> 1"
    by (simp add: distinct_count_atmost_1)
  show "count (mset ys) a = (if a \<in> set ys then 1 else 0)"
  proof (cases "a \<in> set ys")
    case True
    then have "0 < count (mset ys) a" by simp
    with le one have "count (mset ys) a = 1" by linarith
    with True show ?thesis by simp
  next
    case False
    then have "count (mset ys) a = 0" by (simp add: count_eq_zero_iff)
    with False show ?thesis by simp
  qed
qed

lemma distinct_map_draw:
  assumes "distinct (map f pool)"
  shows "distinct (map f (draw rnd t pool k))"
proof -
  have "mset (draw rnd t (map f pool) k) \<subseteq># mset (map f pool)" by (rule mset_draw)
  then have "distinct (draw rnd t (map f pool) k)" using assms by (rule distinct_sub_mset)
  then show ?thesis by (simp add: draw_map)
qed

lemma sample_min_ok:
  "sample rnd pool (min 3 (length pool)) = Inr (draw rnd 0 pool (min 3 (length pool)))"
  by (simp add: sample_def)

text \<open>
  The model of the random source leaves no outcome out: every arrangement of pairwise
  different elements of a pool without repetitions is the draw of some sequence of raw
  draws.
\<close>

lemma draw_cong:
  "\<forall>i\<ge>t. rnd i = rnd' i \<Longrightarrow> draw rnd t pool k = draw rnd' t pool k"
proof (induction k arbitrary: t pool)
  case 0
  then show ?case by simp
next
  case (Suc k)
  from Suc.prems have later: "\<forall>i\<ge>Suc t. rnd i = rnd' i" by simp
  have "draw rnd (Suc t) (butlast (pool[rnd' t mod length pool := last pool])) k
      = draw rnd' (Suc t) (butlast (pool[rnd' t mod length pool := last pool])) k"
    using later by (rule Suc.IH)
  moreover from Suc.prems have "rnd t = rnd' t" by simp
  ultimately show ?case by (simp add: Let_def)
qed

lemma set_pool_step:
  assumes "distinct pool" and "j < length pool"
  shows "set (butlast (pool[j := last pool])) = set pool - {pool ! j}"
    and "distinct (butlast (pool[j := last pool]))"
proof -
  have m: "mset (butlast (pool[j := last pool])) = mset pool - {#pool ! j#}"
    using assms(2) by (rule mset_pool_step)
  have sub: "mset (butlast (pool[j := last pool])) \<subseteq># mset pool"
    by (simp add: m)
  from sub assms(1) show d: "distinct (butlast (pool[j := last pool]))"
    by (rule distinct_sub_mset)
  have "set_mset (mset pool - {#pool ! j#}) = set pool - {pool ! j}"
  proof (rule set_eqI)
    fix x
    have c: "count (mset pool) x = (if x \<in> set pool then 1 else 0)"
      using assms(1) by (simp add: distinct_count_atmost_1)
    show "x \<in> set_mset (mset pool - {#pool ! j#}) \<longleftrightarrow> x \<in> set pool - {pool ! j}"
      using c by (auto simp: in_diff_count)
  qed
  with m show "set (butlast (pool[j := last pool])) = set pool - {pool ! j}"
    by (metis set_mset_mset)
qed

lemma draw_complete:
  assumes "distinct pool" and "distinct ys" and "set ys \<subseteq> set pool"
  shows "\<exists>rnd. draw rnd t pool (length ys) = ys"
  using assms
proof (induction ys arbitrary: pool t)
  case Nil
  then show ?case by simp
next
  case (Cons y ys)
  from Cons.prems have "y \<in> set pool" by simp
  then obtain j where j: "j < length pool" and y: "pool ! j = y"
    by (auto simp: in_set_conv_nth)
  let ?pool = "butlast (pool[j := last pool])"
  from Cons.prems(1) j have s: "set ?pool = set pool - {y}" and d: "distinct ?pool"
    using set_pool_step [of pool j] y by simp_all
  from Cons.prems have "distinct ys" and "set ys \<subseteq> set ?pool"
    using s by auto
  with d obtain rnd where r: "draw rnd (Suc t) ?pool (length ys) = ys"
    using Cons.IH [of ?pool "Suc t"] by blast
  have "draw (rnd(t := j)) (Suc t) ?pool (length ys) = draw rnd (Suc t) ?pool (length ys)"
    by (rule draw_cong) simp
  with r j y have "draw (rnd(t := j)) t pool (length (y # ys)) = y # ys"
    by (auto simp: Let_def)
  then show ?case by blast
qed

section \<open>Facts about the remainder and the assembly\<close>

lemma map_fst_remaining:
  "map fst (remaining_indexed all_papers sel)
     = filter (\<lambda>i. int i \<notin> set sel) [0..<length all_papers]"
proof -
  have "(\<lambda>(i, p). int i \<notin> set sel) = (\<lambda>i. int i \<notin> set sel) \<circ> (fst :: nat \<times> paper \<Rightarrow> nat)"
    by (simp add: fun_eq_iff)
  then show ?thesis
    by (simp add: remaining_indexed_def filter_map [symmetric])
qed

lemma distinct_remaining: "distinct (map fst (remaining_indexed all_papers sel))"
  by (simp add: map_fst_remaining)

lemma remaining_member:
  "(i, p) \<in> set (remaining_indexed all_papers sel) \<Longrightarrow>
     i < length all_papers \<and> p = all_papers ! i \<and> int i \<notin> set sel"
  by (auto simp: remaining_indexed_def in_set_enumerate_eq)

lemma length_remaining_indexed:
  "length (remaining_indexed all_papers sel)
     = length all_papers - length (filter (\<lambda>i. int i \<in> set sel) [0..<length all_papers])"
proof -
  have "length (remaining_indexed all_papers sel)
      = length (filter (\<lambda>i. \<not> int i \<in> set sel) [0..<length all_papers])"
    using map_fst_remaining [of all_papers sel, THEN arg_cong, of length] by simp
  moreover have "length (filter (\<lambda>i. int i \<in> set sel) [0..<length all_papers])
      + length (filter (\<lambda>i. \<not> int i \<in> set sel) [0..<length all_papers]) = length all_papers"
    using sum_length_filter_compl [of "\<lambda>i. int i \<in> set sel" "[0..<length all_papers]"]
    by simp
  ultimately show ?thesis by simp
qed

lemma length_remaining_papers:
  "length (remaining_papers all_papers sel) = length (remaining_indexed all_papers sel)"
  by (simp add: remaining_papers_def)

lemma length_excluded_distinct:
  assumes "distinct sel" and "\<forall>i\<in>set sel. 0 \<le> i \<and> i < int N"
  shows "length (filter (\<lambda>i. int i \<in> set sel) [0..<N]) = length sel"
proof -
  let ?ex = "filter (\<lambda>i. int i \<in> set sel) [0..<N]"
  have seteq: "set ?ex = nat ` set sel"
  proof (rule set_eqI)
    fix x
    show "x \<in> set ?ex \<longleftrightarrow> x \<in> nat ` set sel"
    proof
      assume "x \<in> set ?ex"
      then have "int x \<in> set sel" by simp
      then have "nat (int x) \<in> nat ` set sel" by (rule imageI)
      then show "x \<in> nat ` set sel" by simp
    next
      assume "x \<in> nat ` set sel"
      then obtain i where i: "i \<in> set sel" and x: "x = nat i" by blast
      with assms(2) have "0 \<le> i" and "i < int N" by auto
      with i x show "x \<in> set ?ex" by simp
    qed
  qed
  have inj: "inj_on nat (set sel)"
  proof (rule inj_onI)
    fix x y
    assume "x \<in> set sel" and "y \<in> set sel" and eq: "nat x = nat y"
    with assms(2) have "0 \<le> x" and "0 \<le> y" by auto
    with eq show "x = y" by simp
  qed
  have d: "distinct ?ex" by simp
  have "length ?ex = card (set ?ex)" by (rule distinct_card [OF d, symmetric])
  also have "\<dots> = card (nat ` set sel)" by (simp only: seteq)
  also have "\<dots> = card (set sel)" by (rule card_image [OF inj])
  also have "\<dots> = length sel" by (rule distinct_card [OF assms(1)])
  finally show ?thesis .
qed

lemma bonus_indexed_complete:
  assumes "distinct ys" and "set ys \<subseteq> set (remaining_indexed all_papers sel)"
    and "length ys = min 3 (length (remaining_indexed all_papers sel))"
  shows "\<exists>rnd. bonus_indexed rnd all_papers sel = ys"
proof -
  have "distinct (remaining_indexed all_papers sel)"
    using distinct_remaining [of all_papers sel] by (simp add: distinct_map)
  from draw_complete [OF this assms(1) assms(2), of 0] assms(3)
  show ?thesis by (simp add: bonus_indexed_def Let_def)
qed

lemma bonus_papers_indexed:
  "bonus_papers rnd all_papers sel = map snd (bonus_indexed rnd all_papers sel)"
  by (simp add: bonus_papers_def bonus_indexed_def remaining_papers_def Let_def draw_map)

lemma length_bonus_papers:
  "length (bonus_papers rnd all_papers sel) = min 3 (length (remaining_papers all_papers sel))"
  by (simp add: bonus_papers_def Let_def length_draw)

lemma bonus_loop_concat:
  "bonus_loop ps acc = acc @ concat (map bonus_item ps)"
  by (induction ps arbitrary: acc) simp_all

lemma narrative_loop_fragments:
  "narrative_loop svc n ps acc = acc @ concat (fragments svc n ps)"
  by (induction ps arbitrary: n acc) (simp_all split: option.split)

lemma length_fragments: "length (fragments svc n ps) \<le> length ps"
proof (induction ps arbitrary: n)
  case Nil
  then show ?case by simp
next
  case (Cons p ps)
  from Cons.IH [of "Suc n"] show ?case by (simp split: option.split)
qed

lemma fragments_all_fail:
  "\<forall>(k, p)\<in>set (enumerate n ps). svc k (narrative_prompt p) = None \<Longrightarrow>
     fragments svc n ps = []"
  by (induction ps arbitrary: n) simp_all

lemma fragments_append:
  "fragments svc n (ps @ qs) = fragments svc n ps @ fragments svc (n + length ps) qs"
  by (induction ps arbitrary: n) (simp_all split: option.split)

lemma fragments_map_filter:
  "fragments svc n ps
     = List.map_filter (\<lambda>(k, p). map_option sanitize (svc k (narrative_prompt p)))
         (enumerate n ps)"
  by (induction ps arbitrary: n) (simp_all add: List.map_filter_simps split: option.split)

lemma create_summary_content_eq:
  "create_summary_content svc n rnd now sp all_papers sel =
     Inr (header now @ concat (fragments svc n sp) @ bonus_heading @ bonus_list_open
          @ concat (map bonus_item (bonus_papers rnd all_papers sel)) @ ''</ul>'')"
  by (simp add: create_summary_content_def Let_def sample_min_ok bonus_loop_concat
      narrative_loop_fragments bonus_papers_def)

lemma generate_digest_eq:
  "generate_digest nd lim svc rnd now papers =
     Inr (header now @ concat (fragments svc 1 (fst (select nd lim svc papers)))
          @ bonus_heading @ bonus_list_open
          @ concat (map bonus_item (bonus_papers rnd papers (snd (select nd lim svc papers))))
          @ ''</ul>'')"
  by (simp add: generate_digest_def create_summary_content_eq split: prod.split)

section \<open>The bonus sampler\<close>

lemma bonus_indexed_member:
  assumes "(i, p) \<in> set (bonus_indexed rnd all_papers sel)"
  shows "i < length all_papers \<and> p = all_papers ! i \<and> int i \<notin> set sel"
proof -
  from assms have "(i, p) \<in> set (remaining_indexed all_papers sel)"
    using set_draw [of rnd 0 "remaining_indexed all_papers sel"]
    by (auto simp: bonus_indexed_def Let_def)
  then show ?thesis by (rule remaining_member)
qed

lemma demo_bonus_positions:
  "map fst (bonus_indexed (\<lambda>t. 7 * t + 2) (demo_corpus 9) [3, 4]) = [2, 5, 1]"
  by code_simp

text \<open>
  C4. For every corpus, every list of selected indices and every sequence of raw draws,
  no position of the bonus draw is among the selected indices, nor among the positions of
  the selected papers. The draw is made from the remainder only, so its positions are
  pairwise distinct positions of the corpus, each bonus paper is the corpus paper at its
  position, and these papers are the ones the digest lists.
\<close>

theorem bonus_disjoint_from_selection:
  "set (map (int \<circ> fst) (bonus_indexed rnd all_papers sel)) \<inter> set sel = {}
   \<and> set (map (int \<circ> fst) (bonus_indexed rnd all_papers sel))
        \<inter> set (selected_positions all_papers sel) = {}
   \<and> distinct (map fst (bonus_indexed rnd all_papers sel))
   \<and> set (map fst (bonus_indexed rnd all_papers sel)) \<subseteq> {..<length all_papers}
   \<and> bonus_papers rnd all_papers sel
        = map (\<lambda>(i, p). all_papers ! i) (bonus_indexed rnd all_papers sel)
   \<and> create_summary_content svc n rnd now sp all_papers sel
        = Inr (header now @ concat (fragments svc n sp) @ bonus_heading @ bonus_list_open
               @ concat (map bonus_item (bonus_papers rnd all_papers sel)) @ ''</ul>'')"
proof (intro conjI)
  show d1: "set (map (int \<circ> fst) (bonus_indexed rnd all_papers sel)) \<inter> set sel = {}"
    using bonus_indexed_member [of _ _ rnd all_papers sel] by fastforce
  have "set (selected_positions all_papers sel) \<subseteq> set sel"
    by (simp add: selected_positions_def)
  with d1 show "set (map (int \<circ> fst) (bonus_indexed rnd all_papers sel))
        \<inter> set (selected_positions all_papers sel) = {}"
    by blast
  show "distinct (map fst (bonus_indexed rnd all_papers sel))"
    unfolding bonus_indexed_def Let_def
    by (rule distinct_map_draw) (rule distinct_remaining)
  show "set (map fst (bonus_indexed rnd all_papers sel)) \<subseteq> {..<length all_papers}"
    using bonus_indexed_member [of _ _ rnd all_papers sel] by fastforce
  have "map snd (bonus_indexed rnd all_papers sel)
      = map (\<lambda>(i, p). all_papers ! i) (bonus_indexed rnd all_papers sel)"
    using bonus_indexed_member [of _ _ rnd all_papers sel] by (intro map_cong refl) auto
  then show "bonus_papers rnd all_papers sel
        = map (\<lambda>(i, p). all_papers ! i) (bonus_indexed rnd all_papers sel)"
    by (simp add: bonus_papers_indexed)
  show "create_summary_content svc n rnd now sp all_papers sel
        = Inr (header now @ concat (fragments svc n sp) @ bonus_heading @ bonus_list_open
               @ concat (map bonus_item (bonus_papers rnd all_papers sel)) @ ''</ul>'')"
    by (rule create_summary_content_eq)
qed

text \<open>A draw from a corpus of nine papers with papers 3 and 4 selected.\<close>

theorem bonus_disjoint_from_selection_witness:
  "map fst (bonus_indexed (\<lambda>t. 7 * t + 2) (demo_corpus 9) [3, 4]) = [2, 5, 1]
   \<and> set (map (int \<circ> fst) (bonus_indexed (\<lambda>t. 7 * t + 2) (demo_corpus 9) [3, 4]))
        \<inter> set [3, 4] = {}
   \<and> bonus_papers (\<lambda>t. 7 * t + 2) (demo_corpus 9) [3, 4]
        = [demo_paper 2, demo_paper 5, demo_paper 1]"
proof -
  note t = bonus_disjoint_from_selection
    [of "\<lambda>t. 7 * t + 2" "demo_corpus 9" "[3, 4]" "\<lambda>k p. None" 1 "[]" "[]"]
  have "map (\<lambda>(i, p). demo_corpus 9 ! i) (bonus_indexed (\<lambda>t. 7 * t + 2) (demo_corpus 9) [3, 4])
      = map (\<lambda>i. demo_corpus 9 ! i) (map fst (bonus_indexed (\<lambda>t. 7 * t + 2) (demo_corpus 9) [3, 4]))"
    by (simp add: case_prod_unfold)
  then have "map (\<lambda>(i, p). demo_corpus 9 ! i) (bonus_indexed (\<lambda>t. 7 * t + 2) (demo_corpus 9) [3, 4])
      = [demo_paper 2, demo_paper 5, demo_paper 1]"
    by (simp only: demo_bonus_positions) simp
  with t demo_bonus_positions show ?thesis by simp
qed

lemma demo_bonus_dup:
  "length (bonus_papers (\<lambda>t. 0) (demo_corpus 3) [2, 2]) = 2"
  by (simp add: length_bonus_papers length_remaining_papers length_remaining_indexed
      upt_conv_Cons)

text \<open>
  C5, as the code has it. The bonus list has exactly \<open>min(3, |remainder|)\<close> papers, where
  the remainder is the corpus without the positions named by the selected indices: its
  size is \<open>N\<close> minus the number of positions of \<open>[0, N)\<close> among the indices. That is
  \<open>min(3, N - |SelectionResult|)\<close> when the indices are pairwise distinct and within
  range. The draw is without replacement: as a multiset it is contained in the
  remainder.
\<close>

theorem bonus_size:
  "length (bonus_papers rnd all_papers sel) = min 3 (length (remaining_papers all_papers sel))
   \<and> length (remaining_papers all_papers sel)
        = length all_papers - length (filter (\<lambda>i. int i \<in> set sel) [0..<length all_papers])
   \<and> (distinct sel \<and> (\<forall>i\<in>set sel. 0 \<le> i \<and> i < int (length all_papers)) \<longrightarrow>
        length (bonus_papers rnd all_papers sel) = min 3 (length all_papers - length sel))
   \<and> mset (bonus_indexed rnd all_papers sel) \<subseteq># mset (remaining_indexed all_papers sel)
   \<and> bonus_papers rnd all_papers sel = map snd (bonus_indexed rnd all_papers sel)"
proof (intro conjI impI)
  show "length (bonus_papers rnd all_papers sel) = min 3 (length (remaining_papers all_papers sel))"
    by (rule length_bonus_papers)
  show r: "length (remaining_papers all_papers sel)
        = length all_papers - length (filter (\<lambda>i. int i \<in> set sel) [0..<length all_papers])"
    by (simp add: length_remaining_papers length_remaining_indexed)
  show "mset (bonus_indexed rnd all_papers sel) \<subseteq># mset (remaining_indexed all_papers sel)"
    by (simp add: bonus_indexed_def Let_def mset_draw)
  show "bonus_papers rnd all_papers sel = map snd (bonus_indexed rnd all_papers sel)"
    by (rule bonus_papers_indexed)
  assume "distinct sel \<and> (\<forall>i\<in>set sel. 0 \<le> i \<and> i < int (length all_papers))"
  then have "length (filter (\<lambda>i. int i \<in> set sel) [0..<length all_papers]) = length sel"
    by (simp add: length_excluded_distinct)
  with r show "length (bonus_papers rnd all_papers sel) = min 3 (length all_papers - length sel)"
    by (simp add: length_bonus_papers)
qed

text \<open>Two distinct indices within range, on corpora of five and of four papers.\<close>

theorem bonus_size_witness:
  "length (bonus_papers (\<lambda>t. 7 * t + 2) (demo_corpus 5) [1, 3]) = 3
   \<and> length (bonus_papers (\<lambda>t. 7 * t + 2) (demo_corpus 4) [1, 3]) = 2"
  using bonus_size [of "\<lambda>t. 7 * t + 2" "demo_corpus 5" "[1, 3]",
      THEN conjunct2, THEN conjunct2, THEN conjunct1]
    bonus_size [of "\<lambda>t. 7 * t + 2" "demo_corpus 4" "[1, 3]",
      THEN conjunct2, THEN conjunct2, THEN conjunct1]
  by simp

text \<open>
  C5 as stated fails for \<open>N = 3\<close> and the response \<open>2, 2\<close>: the selection has two
  entries, as indices and as papers, so the claim gives \<open>min(3, 3 - 2) = 1\<close>, and the
  bonus list has two papers.
\<close>

theorem bonus_size_counterexample:
  "select unicode_nd (Some 4300) (\<lambda>n p. Some ''2, 2'') (demo_corpus 3) = ([demo_paper 2, demo_paper 2], [2, 2])
   \<and> length (bonus_papers (\<lambda>t. 0) (demo_corpus 3) [2, 2]) = 2
   \<and> min 3 (length (demo_corpus 3) - length [2, 2 :: int]) = 1
   \<and> min 3 (length (demo_corpus 3) - length [demo_paper 2, demo_paper 2]) = 1"
  by (simp add: select_dup demo_bonus_dup)

section \<open>Narratives and assembly\<close>

lemma demo_sanitize:
  "sanitize (bq @ bq @ bq @ ''html<p>one</p>'' @ bq @ bq @ bq) = ''<p>one</p>''"
  by code_simp

lemma demo_sanitize_plain: "sanitize ''<p>one</p>'' = ''<p>one</p>''"
  by code_simp

text \<open>
  C6. For every list of selected papers and every behaviour of the service, the loop
  appends to the document exactly the fragments of the requests that succeeded, in the
  order of the selected papers: paper number \<open>k\<close> of the list is asked for with request
  \<open>n + k\<close> whatever happened before it, a failed request contributes nothing, and so
  there are at most as many fragments as selected papers. A failure for one paper drops
  that paper only: the fragments are those of the papers before it followed by those of
  the papers after it. No failure leaves the function: its result is always a document.
\<close>

theorem narrative_failure_isolation:
  "narrative_loop svc n sp acc = acc @ concat (fragments svc n sp)
   \<and> fragments svc n sp
        = List.map_filter (\<lambda>(k, p). map_option sanitize (svc k (narrative_prompt p)))
            (enumerate n sp)
   \<and> length (fragments svc n sp) \<le> length sp
   \<and> (\<forall>ps q qs. sp = ps @ q # qs \<and> svc (n + length ps) (narrative_prompt q) = None \<longrightarrow>
         fragments svc n sp = fragments svc n ps @ fragments svc (Suc (n + length ps)) qs)
   \<and> create_summary_content svc n rnd now sp all_papers sel
        = Inr (header now @ concat (fragments svc n sp) @ bonus_heading @ bonus_list_open
               @ concat (map bonus_item (bonus_papers rnd all_papers sel)) @ ''</ul>'')"
proof (intro conjI allI impI)
  show "narrative_loop svc n sp acc = acc @ concat (fragments svc n sp)"
    by (rule narrative_loop_fragments)
  show "fragments svc n sp
        = List.map_filter (\<lambda>(k, p). map_option sanitize (svc k (narrative_prompt p)))
            (enumerate n sp)"
    by (rule fragments_map_filter)
  show "length (fragments svc n sp) \<le> length sp"
    by (rule length_fragments)
  show "create_summary_content svc n rnd now sp all_papers sel
        = Inr (header now @ concat (fragments svc n sp) @ bonus_heading @ bonus_list_open
               @ concat (map bonus_item (bonus_papers rnd all_papers sel)) @ ''</ul>'')"
    by (rule create_summary_content_eq)
next
  fix ps q qs
  assume "sp = ps @ q # qs \<and> svc (n + length ps) (narrative_prompt q) = None"
  then show "fragments svc n sp = fragments svc n ps @ fragments svc (Suc (n + length ps)) qs"
    by (simp add: fragments_append)
qed

text \<open>
  Two selected papers: with the second request failing, and with the first request
  failing, one fragment is left and the other paper is still processed.
\<close>

theorem narrative_failure_isolation_witness:
  "fragments (\<lambda>k p. if k = 1 then Some ''<p>one</p>'' else None) 1 [demo_paper 1, demo_paper 3]
     = [''<p>one</p>'']
   \<and> fragments (\<lambda>k p. if k = 2 then Some ''<p>one</p>'' else None) 1 [demo_paper 1, demo_paper 3]
     = fragments (\<lambda>k p. if k = 2 then Some ''<p>one</p>'' else None) 1 []
       @ fragments (\<lambda>k p. if k = 2 then Some ''<p>one</p>'' else None) 2 [demo_paper 3]
   \<and> fragments (\<lambda>k p. if k = 2 then Some ''<p>one</p>'' else None) 1 [demo_paper 1, demo_paper 3]
     = [''<p>one</p>'']"
proof -
  have a: "fragments (\<lambda>k p. if k = 1 then Some ''<p>one</p>'' else None) 1
      [demo_paper 1, demo_paper 3] = [''<p>one</p>'']"
    using narrative_failure_isolation
      [of "\<lambda>k p. if k = 1 then Some ''<p>one</p>'' else None" 1 "[demo_paper 1, demo_paper 3]",
       THEN conjunct2, THEN conjunct1]
    by (simp add: List.map_filter_simps enumerate_simps demo_sanitize_plain)
  have b: "fragments (\<lambda>k p. if k = 2 then Some ''<p>one</p>'' else None) 1
      [demo_paper 1, demo_paper 3]
     = fragments (\<lambda>k p. if k = 2 then Some ''<p>one</p>'' else None) 1 []
       @ fragments (\<lambda>k p. if k = 2 then Some ''<p>one</p>'' else None) 2 [demo_paper 3]"
    using narrative_failure_isolation
      [of "\<lambda>k p. if k = 2 then Some ''<p>one</p>'' else None" 1 "[demo_paper 1, demo_paper 3]",
       THEN conjunct2, THEN conjunct2, THEN conjunct2, THEN conjunct1, rule_format,
       of "[]" "demo_paper 1" "[demo_paper 3]"]
    by simp
  from a b show ?thesis by (simp add: demo_sanitize_plain)
qed

text \<open>
  C7. If the narrative request fails for every selected paper, the digest is the header
  (the fixed title and the date) followed by the bonus section, and it is not empty.
\<close>

theorem digest_without_narratives:
  assumes "\<forall>(k, p)\<in>set (enumerate 1 (fst (select nd lim svc papers))).
             svc k (narrative_prompt p) = None"
  shows "generate_digest nd lim svc rnd now papers
           = Inr (header now @ bonus_heading @ bonus_list_open
                  @ concat (map bonus_item (bonus_papers rnd papers (snd (select nd lim svc papers))))
                  @ ''</ul>'')
         \<and> header now = ''<h1>Daily AI Research Digest</h1><p>'' @ now @ ''</p><hr>''
         \<and> header now @ bonus_heading @ bonus_list_open
             @ concat (map bonus_item (bonus_papers rnd papers (snd (select nd lim svc papers))))
             @ ''</ul>'' \<noteq> []"
proof -
  from assms have "fragments svc 1 (fst (select nd lim svc papers)) = []"
    by (rule fragments_all_fail)
  then show ?thesis
    by (simp add: generate_digest_eq header_def)
qed

lemma demo_select_down:
  "select unicode_nd (Some 4300) (\<lambda>k p. None) (demo_corpus 5)
     = ([demo_paper 0, demo_paper 1, demo_paper 2], [0, 1, 2])"
  by (simp add: select_def try_select_def demo_corpus_def upt_conv_Cons numeral_2_eq_2)

lemma demo_bonus_down:
  "bonus_papers (\<lambda>t. 0) (demo_corpus 5) [0, 1, 2] = [demo_corpus 5 ! 3, demo_corpus 5 ! 4]"
  by code_simp

text \<open>
  The service is down for the whole run on a corpus of five papers: fallback selection,
  no narrative, and the two remaining papers in the bonus list.
\<close>

theorem digest_without_narratives_witness:
  "generate_digest unicode_nd (Some 4300) (\<lambda>k p. None) (\<lambda>t. 0) ''May 01, 2026'' (demo_corpus 5)
     = Inr (header ''May 01, 2026'' @ bonus_heading @ bonus_list_open
            @ bonus_item (demo_paper 3) @ bonus_item (demo_paper 4) @ ''</ul>'')"
  using digest_without_narratives
    [of unicode_nd "Some 4300" "\<lambda>k p. None" "demo_corpus 5" "\<lambda>t. 0" "''May 01, 2026''"]
  by (simp add: demo_select_down demo_bonus_down)

text \<open>
  C9. The document depends on the run only through the date, the narrative fragments and
  the bonus papers: two runs that agree on these give the same document, byte for byte,
  whatever their services, corpora, selections and random draws are.
\<close>

theorem assembly_deterministic:
  assumes "fragments svc n sp = fragments svc' n' sp'"
    and "bonus_papers rnd all_papers sel = bonus_papers rnd' all_papers' sel'"
  shows "create_summary_content svc n rnd now sp all_papers sel
           = create_summary_content svc' n' rnd' now sp' all_papers' sel'"
  using assms by (simp add: create_summary_content_eq)

lemma demo_bonus_a:
  "bonus_papers (\<lambda>t. 0) (demo_corpus 4) [1]
     = [demo_corpus 4 ! 0, demo_corpus 4 ! 3, demo_corpus 4 ! 2]"
  by code_simp

lemma demo_bonus_b:
  "bonus_papers (\<lambda>t. 6 * t) (demo_corpus 4) [1, 1]
     = [demo_corpus 4 ! 0, demo_corpus 4 ! 3, demo_corpus 4 ! 2]"
  by code_simp

lemma demo_fragments_a:
  "fragments (\<lambda>k p. if k = 1 then Some ''<p>one</p>'' else None) 1 [demo_paper 1]
     = [''<p>one</p>'']"
  by (simp add: demo_sanitize_plain)

lemma demo_fragments_b:
  "fragments (\<lambda>k p. if k = 2 then Some (bq @ bq @ bq @ ''html<p>one</p>'' @ bq @ bq @ bq) else None)
      1 [demo_paper 2, demo_paper 1]
     = [''<p>one</p>'']"
  by code_simp

text \<open>
  Two runs that differ in the service, the selected papers, the selected indices and the
  raw draws, and have the same fragments and the same bonus papers.
\<close>

theorem assembly_deterministic_witness:
  "create_summary_content (\<lambda>k p. if k = 1 then Some ''<p>one</p>'' else None) 1
       (\<lambda>t. 0) ''May 01, 2026'' [demo_paper 1] (demo_corpus 4) [1]
     = create_summary_content
         (\<lambda>k p. if k = 2 then Some (bq @ bq @ bq @ ''html<p>one</p>'' @ bq @ bq @ bq) else None) 1
         (\<lambda>t. 6 * t) ''May 01, 2026'' [demo_paper 2, demo_paper 1] (demo_corpus 4) [1, 1]"
proof -
  have f: "fragments (\<lambda>k p. if k = 1 then Some ''<p>one</p>'' else None) 1 [demo_paper 1]
      = fragments
          (\<lambda>k p. if k = 2 then Some (bq @ bq @ bq @ ''html<p>one</p>'' @ bq @ bq @ bq) else None)
          1 [demo_paper 2, demo_paper 1]"
    by (simp only: demo_fragments_a demo_fragments_b)
  have b: "bonus_papers (\<lambda>t. 0) (demo_corpus 4) [1]
      = bonus_papers (\<lambda>t. 6 * t) (demo_corpus 4) [1, 1]"
    by (simp only: demo_bonus_a demo_bonus_b)
  from f b show ?thesis by (rule assembly_deterministic)
qed

section \<open>Totality of the pipeline\<close>

text \<open>
  The two operations that can raise outside the service calls do raise in the model when
  they are used without their guard.
\<close>

lemma unguarded_operations_raise:
  "getitem [a] 5 = Inl IndexError" and "sample rnd [a] 3 = Inl ValueError"
  by (simp_all add: getitem_def sample_def)

text \<open>
  C10. For every corpus, the empty one included, every behaviour of the service and every
  sequence of raw draws, \<^verbatim>\<open>generate_digest\<close> returns a document: the header, the
  fragments, the divider with the bonus heading, and the list. The lookups of the success
  path never raise, because they are made at the indices that pass the range guard; the
  fallback slice has \<open>min(3, N)\<close> papers; the sample asks for \<open>min(3, |pool|)\<close> elements,
  which never exceeds the pool, and returns that many. When the remainder is empty the
  document ends with the divider, the bonus heading and an empty list.
\<close>

theorem generate_digest_total:
  "generate_digest nd lim svc rnd now papers
     = Inr (header now @ concat (fragments svc 1 (fst (select nd lim svc papers)))
            @ bonus_heading @ bonus_list_open
            @ concat (map bonus_item (bonus_papers rnd papers (snd (select nd lim svc papers))))
            @ ''</ul>'')
   \<and> collect (getitem papers) (selected_positions papers si)
        = Inr (map (\<lambda>i. papers ! nat i) (selected_positions papers si))
   \<and> length (take 3 papers) = min 3 (length papers)
   \<and> sample rnd pool (min 3 (length pool)) = Inr (draw rnd 0 pool (min 3 (length pool)))
   \<and> length (draw rnd 0 pool (min 3 (length pool))) = min 3 (length pool)
   \<and> (remaining_papers papers (snd (select nd lim svc papers)) = [] \<longrightarrow>
        generate_digest nd lim svc rnd now papers
          = Inr (header now @ concat (fragments svc 1 (fst (select nd lim svc papers)))
                 @ bonus_heading @ bonus_list_open @ ''</ul>''))"
proof (intro conjI impI)
  show "generate_digest nd lim svc rnd now papers
     = Inr (header now @ concat (fragments svc 1 (fst (select nd lim svc papers)))
            @ bonus_heading @ bonus_list_open
            @ concat (map bonus_item (bonus_papers rnd papers (snd (select nd lim svc papers))))
            @ ''</ul>'')"
    by (rule generate_digest_eq)
  show "collect (getitem papers) (selected_positions papers si)
        = Inr (map (\<lambda>i. papers ! nat i) (selected_positions papers si))"
    by (rule collect_getitem_guarded)
  show "length (take 3 papers) = min 3 (length papers)"
    by (simp add: min.commute)
  show "sample rnd pool (min 3 (length pool)) = Inr (draw rnd 0 pool (min 3 (length pool)))"
    by (rule sample_min_ok)
  show "length (draw rnd 0 pool (min 3 (length pool))) = min 3 (length pool)"
    by (simp add: length_draw)
next
  assume "remaining_papers papers (snd (select nd lim svc papers)) = []"
  then have "bonus_papers rnd papers (snd (select nd lim svc papers)) = []"
    by (simp add: bonus_papers_def)
  then show "generate_digest nd lim svc rnd now papers
          = Inr (header now @ concat (fragments svc 1 (fst (select nd lim svc papers)))
                 @ bonus_heading @ bonus_list_open @ ''</ul>'')"
    by (simp add: generate_digest_eq)
qed

lemma demo_select_empty:
  "select unicode_nd (Some 4300) (\<lambda>k p. Some ''7, 8'') [] = ([], [7, 8])"
  using select_parsed [OF demo_ok_oob, of "[]"]
  by (simp add: demo_idx_oob selected_positions_def in_range_def)

lemma demo_select_two:
  "select unicode_nd (Some 4300) (\<lambda>k p. None) (demo_corpus 2) = (demo_corpus 2, [0, 1, 2])"
  by (simp add: select_def try_select_def)

lemma fragments_service_down: "fragments (\<lambda>k p. None) n ps = []"
  by (induction ps arbitrary: n) simp_all

lemma demo_remaining_two: "remaining_papers (demo_corpus 2) [0, 1, 2] = []"
  by code_simp

text \<open>
  The empty corpus with a response that names papers 7 and 8, and a corpus of two papers
  with the service down: the remainder is empty in both runs.
\<close>

theorem generate_digest_total_witness:
  "generate_digest unicode_nd (Some 4300) (\<lambda>k p. Some ''7, 8'') (\<lambda>t. 0) ''May 01, 2026'' []
     = Inr (header ''May 01, 2026'' @ bonus_heading @ bonus_list_open @ ''</ul>'')
   \<and> generate_digest unicode_nd (Some 4300) (\<lambda>k p. None) (\<lambda>t. 0) ''May 01, 2026'' (demo_corpus 2)
     = Inr (header ''May 01, 2026'' @ bonus_heading @ bonus_list_open @ ''</ul>'')"
proof -
  have a: "generate_digest unicode_nd (Some 4300) (\<lambda>k p. Some ''7, 8'') (\<lambda>t. 0) ''May 01, 2026'' []
     = Inr (header ''May 01, 2026'' @ bonus_heading @ bonus_list_open @ ''</ul>'')"
    using generate_digest_total
      [of unicode_nd "Some 4300" "\<lambda>k p. Some ''7, 8''" "\<lambda>t. 0" "''May 01, 2026''" "[]" "[]"
        "[]",
       THEN conjunct2, THEN conjunct2, THEN conjunct2, THEN conjunct2, THEN conjunct2]
    by (simp add: demo_select_empty remaining_papers_def remaining_indexed_def)
  have b: "generate_digest unicode_nd (Some 4300) (\<lambda>k p. None) (\<lambda>t. 0) ''May 01, 2026'' (demo_corpus 2)
     = Inr (header ''May 01, 2026'' @ bonus_heading @ bonus_list_open @ ''</ul>'')"
    using generate_digest_total
      [of unicode_nd "Some 4300" "\<lambda>k p. None" "\<lambda>t. 0" "''May 01, 2026''" "demo_corpus 2" "[]"
        "[]",
       THEN conjunct2, THEN conjunct2, THEN conjunct2, THEN conjunct2, THEN conjunct2]
    by (simp add: demo_select_two demo_remaining_two fragments_service_down)
  from a b show ?thesis by simp
qed

section \<open>Start-up validation\<close>

lemma split_on_not_empty: "split_on sep s \<noteq> []"
  by (induction s) (simp_all split: list.split)

lemma validate_outcome:
  "validate (Configuration_init e)
     = (if truthy_str (e ''GEMINI_API_KEY'') \<and> truthy_str (e ''EMAIL_ADDRESS'')
           \<and> truthy_str (e ''EMAIL_PASSWORD'')
        then Inr () else Inl ValueError)"
  by (simp add: validate_def Configuration_init_def truthy_list_def split_on_not_empty)

lemma app_init_missing_credential:
  "\<not> truthy_str (e ''GEMINI_API_KEY'') \<or> \<not> truthy_str (e ''EMAIL_ADDRESS'')
     \<or> \<not> truthy_str (e ''EMAIL_PASSWORD'') \<Longrightarrow> app_init e = Inl ValueError"
  by (auto simp: app_init_def Let_def validate_outcome)

text \<open>
  C8 at an environment with the three credentials and no \<^verbatim>\<open>RECEIVER_EMAILS\<close>, and at one
  where it is the empty string: \<^verbatim>\<open>"".split(",")\<close> is the list of one empty string, which
  is true as a condition, so validation passes and start-up goes on with the receiver
  list \<open>['']\<close>. A missing credential is refused (\<open>app_init_missing_credential\<close>).
\<close>

theorem validate_passes_without_receivers:
  "validate (Configuration_init
       [''GEMINI_API_KEY'' \<mapsto> ''k'', ''EMAIL_ADDRESS'' \<mapsto> ''a@b.c'', ''EMAIL_PASSWORD'' \<mapsto> ''pw''])
     = Inr ()
   \<and> receiver_emails (Configuration_init
       [''GEMINI_API_KEY'' \<mapsto> ''k'', ''EMAIL_ADDRESS'' \<mapsto> ''a@b.c'', ''EMAIL_PASSWORD'' \<mapsto> ''pw''])
     = [[]]
   \<and> app_init
       [''GEMINI_API_KEY'' \<mapsto> ''k'', ''EMAIL_ADDRESS'' \<mapsto> ''a@b.c'', ''EMAIL_PASSWORD'' \<mapsto> ''pw'']
     \<noteq> Inl ValueError
   \<and> app_init
       [''GEMINI_API_KEY'' \<mapsto> ''k'', ''EMAIL_ADDRESS'' \<mapsto> ''a@b.c'', ''EMAIL_PASSWORD'' \<mapsto> ''pw'',
        ''RECEIVER_EMAILS'' \<mapsto> []]
     \<noteq> Inl ValueError"
  by (simp add: app_init_def Let_def validate_def Configuration_init_def truthy_str_def
      truthy_list_def getenv_default_def)

end
